theory Spec2Isabelle
  imports Complex_Main
begin

section \<open>Python text primitives used by the CSV ingestor\<close>

text \<open>
  The scripts are Python. A decoded text is modelled as a \<^typ>\<open>string\<close> whose characters
  are code points below 256; the library functions the ingestor calls (\<^verbatim>\<open>str.strip\<close>,
  \<^verbatim>\<open>str.splitlines\<close>, \<^verbatim>\<open>str.split\<close>, \<^verbatim>\<open>str.join\<close>, \<^verbatim>\<open>str.replace\<close>, \<^verbatim>\<open>float\<close>,
  \<^verbatim>\<open>csv.reader\<close>) are modelled after CPython on that range.
\<close>

definition LF :: char where "LF = CHR 0x0A"
definition CR :: char where "CR = CHR 0x0D"
definition TAB :: char where "TAB = CHR 0x09"
definition DQUOTE :: char where "DQUOTE = CHR 0x22"
definition SQUOTE :: char where "SQUOTE = CHR 0x27"

text \<open>\<^verbatim>\<open>str.isspace\<close> on one character: 09-0D, 1C-1F, 20, 85 and A0.\<close>

definition is_space :: "char \<Rightarrow> bool" where
  "is_space c =
     (let n = (of_char c :: nat)
      in (9 \<le> n \<and> n \<le> 13) \<or> (28 \<le> n \<and> n \<le> 32) \<or> n = 133 \<or> n = 160)"

text \<open>The line boundaries of \<^verbatim>\<open>str.splitlines\<close>: 0A-0D, 1C-1E and 85.\<close>

definition is_linebreak :: "char \<Rightarrow> bool" where
  "is_linebreak c =
     (let n = (of_char c :: nat)
      in (10 \<le> n \<and> n \<le> 13) \<or> (28 \<le> n \<and> n \<le> 30) \<or> n = 133)"

definition str_strip :: "string \<Rightarrow> string" where
  "str_strip s = rev (dropWhile is_space (rev (dropWhile is_space s)))"

text \<open>\<^verbatim>\<open>s.strip(chars)\<close>: removes leading and trailing characters that occur in \<open>chars\<close>.\<close>

definition str_strip_chars :: "string \<Rightarrow> string \<Rightarrow> string" where
  "str_strip_chars chars s =
     rev (dropWhile (\<lambda>c. c \<in> set chars) (rev (dropWhile (\<lambda>c. c \<in> set chars) s)))"

text \<open>
  \<^verbatim>\<open>str.splitlines()\<close>: the line ends are dropped, CR LF is one boundary, and a final
  line end opens no further line.
\<close>

fun splitlines_from :: "string \<Rightarrow> string \<Rightarrow> string list" where
  "splitlines_from cur [] = (if cur = [] then [] else [cur])"
| "splitlines_from cur (c # cs) =
     (if is_linebreak c then
        (case cs of
           [] \<Rightarrow> [cur]
         | d # ds \<Rightarrow>
             if c = CR \<and> d = LF then cur # splitlines_from [] ds
             else cur # splitlines_from [] cs)
      else splitlines_from (cur @ [c]) cs)"

definition str_splitlines :: "string \<Rightarrow> string list" where
  "str_splitlines s = splitlines_from [] s"

text \<open>\<^verbatim>\<open>s.split(d)\<close> with a one-character separator: empty pieces are kept.\<close>

fun split_from :: "char \<Rightarrow> string \<Rightarrow> string \<Rightarrow> string list" where
  "split_from d cur [] = [cur]"
| "split_from d cur (c # cs) =
     (if c = d then cur # split_from d [] cs else split_from d (cur @ [c]) cs)"

definition str_split :: "char \<Rightarrow> string \<Rightarrow> string list" where
  "str_split d s = split_from d [] s"

fun str_join :: "string \<Rightarrow> string list \<Rightarrow> string" where
  "str_join sep [] = []"
| "str_join sep [x] = x"
| "str_join sep (x # y # ys) = x @ sep @ str_join sep (y # ys)"

text \<open>\<^verbatim>\<open>s.replace(a, b)\<close> for one-character \<open>a\<close> and \<open>b\<close>.\<close>

definition str_replace :: "char \<Rightarrow> char \<Rightarrow> string \<Rightarrow> string" where
  "str_replace a b s = map (\<lambda>c. if c = a then b else c) s"

definition startswith :: "string \<Rightarrow> string \<Rightarrow> bool" where
  "startswith s p = (take (length p) s = p)"

section \<open>Python \<^verbatim>\<open>float\<close> on a string\<close>

text \<open>
  A Python float is modelled by the number its literal denotes: finite values are reals
  (the rounding to a binary double, and with it the overflow of a huge literal to
  infinity, is left out), and the two infinities and not-a-number are values of their own.
\<close>

datatype pyfloat = Finite real | PosInf | NegInf | NaN

definition is_digit :: "char \<Rightarrow> bool" where
  "is_digit c = (let n = (of_char c :: nat) in 48 \<le> n \<and> n \<le> 57)"

definition digit_val :: "char \<Rightarrow> nat" where
  "digit_val c = of_char c - 48"

definition digits_val :: "string \<Rightarrow> nat" where
  "digits_val ds = foldl (\<lambda>a c. 10 * a + digit_val c) 0 ds"

definition to_lower :: "char \<Rightarrow> char" where
  "to_lower c =
     (let n = (of_char c :: nat) in if 65 \<le> n \<and> n \<le> 90 then char_of (n + 32) else c)"

text \<open>
  Underscores are allowed only between two digits; they are removed before the number is
  read. \<open>prev\<close> is the previous character, if any.
\<close>

fun drop_underscores :: "char option \<Rightarrow> string \<Rightarrow> string option" where
  "drop_underscores prev [] =
     (if prev = Some (CHR ''_'') then None else Some [])"
| "drop_underscores prev (c # cs) =
     (if c = CHR ''_'' then
        (case prev of
           None \<Rightarrow> None
         | Some p \<Rightarrow> if is_digit p then drop_underscores (Some c) cs else None)
      else if prev = Some (CHR ''_'') \<and> \<not> is_digit c then None
      else map_option ((#) c) (drop_underscores (Some c) cs))"

definition scale10 :: "nat \<Rightarrow> int \<Rightarrow> real" where
  "scale10 m e = (if 0 \<le> e then of_nat m * 10 ^ nat e else of_nat m / 10 ^ nat (- e))"

text \<open>The exponent after \<open>e\<close>: an optional sign and at least one digit, nothing else.\<close>

definition parse_exponent :: "string \<Rightarrow> int option" where
  "parse_exponent s =
     (let (neg, ds) =
            (case s of
               [] \<Rightarrow> (False, [])
             | c # cs \<Rightarrow>
                 if c = CHR ''-'' then (True, cs)
                 else if c = CHR ''+'' then (False, cs)
                 else (False, s))
      in if ds = [] \<or> \<not> list_all is_digit ds then None
         else Some (if neg then - int (digits_val ds) else int (digits_val ds)))"

text \<open>
  An unsigned decimal number: digits, an optional point and digits (at least one digit on
  one side of the point), an optional exponent.
\<close>

definition parse_number :: "string \<Rightarrow> real option" where
  "parse_number s =
     (let ip = takeWhile is_digit s;
          r1 = dropWhile is_digit s;
          (fp, r2) =
            (case r1 of
               [] \<Rightarrow> ([], [])
             | c # cs \<Rightarrow>
                 if c = CHR ''.'' then (takeWhile is_digit cs, dropWhile is_digit cs)
                 else ([], r1))
      in if ip = [] \<and> fp = [] then None
         else
           (case r2 of
              [] \<Rightarrow> Some (scale10 (digits_val (ip @ fp)) (- int (length fp)))
            | c # cs \<Rightarrow>
                if c = CHR ''e'' \<or> c = CHR ''E'' then
                  (case parse_exponent cs of
                     None \<Rightarrow> None
                   | Some e \<Rightarrow> Some (scale10 (digits_val (ip @ fp)) (e - int (length fp))))
                else None))"

definition parse_unsigned :: "string \<Rightarrow> pyfloat option" where
  "parse_unsigned s =
     (let w = map to_lower s
      in if w = ''inf'' \<or> w = ''infinity'' then Some PosInf
         else if w = ''nan'' then Some NaN
         else map_option Finite (parse_number s))"

definition negate :: "pyfloat \<Rightarrow> pyfloat" where
  "negate v = (case v of Finite x \<Rightarrow> Finite (- x) | PosInf \<Rightarrow> NegInf | NegInf \<Rightarrow> PosInf | NaN \<Rightarrow> NaN)"

text \<open>
  \<^verbatim>\<open>float(c)\<close> for a string without surrounding whitespace (the ingestor strips every
  cell before the call); \<open>None\<close> is \<^verbatim>\<open>ValueError\<close>.
\<close>

definition py_float :: "string \<Rightarrow> pyfloat option" where
  "py_float c =
     (case drop_underscores None c of
        None \<Rightarrow> None
      | Some s \<Rightarrow>
          (case s of
             [] \<Rightarrow> None
           | x # xs \<Rightarrow>
               if x = CHR ''-'' then map_option negate (parse_unsigned xs)
               else if x = CHR ''+'' then parse_unsigned xs
               else parse_unsigned s))"

section \<open>\<^verbatim>\<open>csv.reader\<close>\<close>

text \<open>
  The reader of the \<^verbatim>\<open>csv\<close> module with the default dialect and a given delimiter: quote
  character \<open>"\<close>, doubled quotes, no escape character, not strict. The states with an
  escape character are unreachable and left out. The file is opened with
  \<^verbatim>\<open>newline=""\<close>, so the reader is fed the lines of the text with their line ends
  (LF, CR or CR LF) kept. The module's limit on the size of one field (131072 characters
  unless it is changed) is not modelled.
\<close>

fun file_lines_from :: "string \<Rightarrow> string \<Rightarrow> string list" where
  "file_lines_from cur [] = (if cur = [] then [] else [cur])"
| "file_lines_from cur (c # cs) =
     (if c = LF then (cur @ [c]) # file_lines_from [] cs
      else if c = CR then
        (case cs of
           [] \<Rightarrow> [cur @ [c]]
         | d # ds \<Rightarrow>
             if d = LF then (cur @ [c, d]) # file_lines_from [] ds
             else (cur @ [c]) # file_lines_from [] cs)
      else file_lines_from (cur @ [c]) cs)"

definition file_lines :: "string \<Rightarrow> string list" where
  "file_lines s = file_lines_from [] s"

datatype parser_state =
  START_RECORD | START_FIELD | IN_FIELD | IN_QUOTED_FIELD | QUOTE_IN_QUOTED_FIELD | EAT_CRNL

record reader =
  state :: parser_state
  rfield :: string
  rfields :: "string list"

datatype csv_error = NewlineInUnquotedField

definition parse_reset :: reader where
  "parse_reset = \<lparr>state = START_RECORD, rfield = [], rfields = []\<rparr>"

definition parse_save_field :: "reader \<Rightarrow> reader" where
  "parse_save_field r = r\<lparr>rfields := rfields r @ [rfield r], rfield := []\<rparr>"

definition parse_add_char :: "char \<Rightarrow> reader \<Rightarrow> reader" where
  "parse_add_char c r = r\<lparr>rfield := rfield r @ [c]\<rparr>"

text \<open>One character of a line (\<open>Some c\<close>) or the end of the line (\<open>None\<close>).\<close>

definition start_field :: "char \<Rightarrow> reader \<Rightarrow> char option \<Rightarrow> reader" where
  "start_field delim r ev =
     (case ev of
        None \<Rightarrow> (parse_save_field r)\<lparr>state := START_RECORD\<rparr>
      | Some c \<Rightarrow>
          if c = LF \<or> c = CR then (parse_save_field r)\<lparr>state := EAT_CRNL\<rparr>
          else if c = DQUOTE then r\<lparr>state := IN_QUOTED_FIELD\<rparr>
          else if c = delim then (parse_save_field r)\<lparr>state := START_FIELD\<rparr>
          else (parse_add_char c r)\<lparr>state := IN_FIELD\<rparr>)"

definition parse_process_char :: "char \<Rightarrow> reader \<Rightarrow> char option \<Rightarrow> csv_error + reader" where
  "parse_process_char delim r ev =
     (case state r of
        START_RECORD \<Rightarrow>
          (case ev of
             None \<Rightarrow> Inr r
           | Some c \<Rightarrow>
               if c = LF \<or> c = CR then Inr (r\<lparr>state := EAT_CRNL\<rparr>)
               else Inr (start_field delim r ev))
      | START_FIELD \<Rightarrow> Inr (start_field delim r ev)
      | IN_FIELD \<Rightarrow>
          (case ev of
             None \<Rightarrow> Inr ((parse_save_field r)\<lparr>state := START_RECORD\<rparr>)
           | Some c \<Rightarrow>
               if c = LF \<or> c = CR then Inr ((parse_save_field r)\<lparr>state := EAT_CRNL\<rparr>)
               else if c = delim then Inr ((parse_save_field r)\<lparr>state := START_FIELD\<rparr>)
               else Inr (parse_add_char c r))
      | IN_QUOTED_FIELD \<Rightarrow>
          (case ev of
             None \<Rightarrow> Inr r
           | Some c \<Rightarrow>
               if c = DQUOTE then Inr (r\<lparr>state := QUOTE_IN_QUOTED_FIELD\<rparr>)
               else Inr (parse_add_char c r))
      | QUOTE_IN_QUOTED_FIELD \<Rightarrow>
          (case ev of
             None \<Rightarrow> Inr ((parse_save_field r)\<lparr>state := START_RECORD\<rparr>)
           | Some c \<Rightarrow>
               if c = DQUOTE then Inr ((parse_add_char c r)\<lparr>state := IN_QUOTED_FIELD\<rparr>)
               else if c = delim then Inr ((parse_save_field r)\<lparr>state := START_FIELD\<rparr>)
               else if c = LF \<or> c = CR then Inr ((parse_save_field r)\<lparr>state := EAT_CRNL\<rparr>)
               else Inr ((parse_add_char c r)\<lparr>state := IN_FIELD\<rparr>))
      | EAT_CRNL \<Rightarrow>
          (case ev of
             None \<Rightarrow> Inr (r\<lparr>state := START_RECORD\<rparr>)
           | Some c \<Rightarrow> if c = LF \<or> c = CR then Inr r else Inl NewlineInUnquotedField))"

text \<open>The characters of one line, then the end-of-line event.\<close>

fun process_line :: "char \<Rightarrow> reader \<Rightarrow> string \<Rightarrow> csv_error + reader" where
  "process_line delim r [] = parse_process_char delim r None"
| "process_line delim r (c # cs) =
     (case parse_process_char delim r (Some c) of
        Inl e \<Rightarrow> Inl e
      | Inr r' \<Rightarrow> process_line delim r' cs)"

text \<open>
  All the records of the reader, in order. A record ends with the line that leaves the
  parser in \<open>START_RECORD\<close>; at the end of the input an open record is returned when a
  field is under way or a quoted field is open.
\<close>

fun reader_rows :: "char \<Rightarrow> reader \<Rightarrow> string list \<Rightarrow> csv_error + string list list" where
  "reader_rows delim r [] =
     (if rfield r \<noteq> [] \<or> state r = IN_QUOTED_FIELD then Inr [rfields (parse_save_field r)]
      else Inr [])"
| "reader_rows delim r (line # lines) =
     (case process_line delim r line of
        Inl e \<Rightarrow> Inl e
      | Inr r' \<Rightarrow>
          if state r' \<noteq> START_RECORD then reader_rows delim r' lines
          else
            (case reader_rows delim parse_reset lines of
               Inl e \<Rightarrow> Inl e
             | Inr rows \<Rightarrow> Inr (rfields r' # rows)))"

definition csv_reader :: "char \<Rightarrow> string \<Rightarrow> csv_error + string list list" where
  "csv_reader delim text = reader_rows delim parse_reset (file_lines text)"

section \<open>The CSV ingestor (\<^verbatim>\<open>plot_bode_plotly.py\<close>)\<close>

text \<open>
  \<^verbatim>\<open>csv.Sniffer().sniff(sample, delimiters=",;\t ")\<close> is a heuristic of the standard
  library; it is a parameter of the model: the delimiter it reports, or \<open>None\<close> when it
  raises.
\<close>

type_synonym sniffer = "string \<Rightarrow> char option"

definition sniff_delimiter :: "sniffer \<Rightarrow> string \<Rightarrow> char" where
  "sniff_delimiter sniff sample =
     (case sniff sample of
        Some d \<Rightarrow> d
      | None \<Rightarrow>
          (case find (\<lambda>d. d \<in> set sample) [CHR '','', CHR '';'', TAB, CHR '' ''] of
             Some d \<Rightarrow> d
           | None \<Rightarrow> CHR '',''))"

text \<open>
  The three \<^verbatim>\<open>ValueError\<close>s of \<^verbatim>\<open>read_labels_and_data\<close>, named after what they report
  (empty file, fewer than two labels, fewer than two numeric columns), and an error of
  the reader.
\<close>

datatype ingest_error = EmptyInput | MissingLabels | InsufficientColumns | CsvError csv_error

text \<open>
  The inner loop over \<^verbatim>\<open>row[:2]\<close>: \<open>numeric\<close> collects the converted cells; a cell
  that neither parses as it is nor with its commas replaced by points empties
  \<open>numeric\<close> and leaves the loop.
\<close>

fun convert_cells :: "string list \<Rightarrow> pyfloat list \<Rightarrow> pyfloat list" where
  "convert_cells [] numeric = numeric"
| "convert_cells (cell # cells) numeric =
     (let c = str_strip cell
      in if c = [] then convert_cells cells (numeric @ [NaN])
         else
           (case py_float c of
              Some v \<Rightarrow> convert_cells cells (numeric @ [v])
            | None \<Rightarrow>
                (case py_float (str_replace (CHR '','') (CHR ''.'') c) of
                   Some v \<Rightarrow> convert_cells cells (numeric @ [v])
                 | None \<Rightarrow> [])))"

text \<open>\<^verbatim>\<open>while len(columns) < len(numeric): columns.append([])\<close>\<close>

function grow_columns :: "pyfloat list list \<Rightarrow> nat \<Rightarrow> pyfloat list list" where
  "grow_columns columns n =
     (if length columns < n then grow_columns (columns @ [[]]) n else columns)"
  by pat_completeness auto
termination
  by (relation "measure (\<lambda>(columns, n). n - length columns)") auto

declare grow_columns.simps [simp del]

text \<open>
  \<^verbatim>\<open>for i, v in enumerate(numeric): columns[i].append(v)\<close>, from index \<open>i\<close> on. The
  columns have been grown before, so every index is in range.
\<close>

fun append_values :: "pyfloat list list \<Rightarrow> nat \<Rightarrow> pyfloat list \<Rightarrow> pyfloat list list" where
  "append_values columns i [] = columns"
| "append_values columns i (v # vs) =
     append_values (columns[i := columns ! i @ [v]]) (Suc i) vs"

definition is_blank_row :: "string list \<Rightarrow> bool" where
  "is_blank_row row = (row = [] \<or> \<not> list_ex (\<lambda>cell. str_strip cell \<noteq> []) row)"

definition is_comment_row :: "string list \<Rightarrow> bool" where
  "is_comment_row row =
     (let first = (case row of [] \<Rightarrow> [] | cell # _ \<Rightarrow> str_strip cell)
      in startswith first ''#'')"

text \<open>The loop over the rows of the reader, with its two variables.\<close>

fun scan_rows :: "string list list \<Rightarrow> bool \<Rightarrow> pyfloat list list \<Rightarrow> pyfloat list list" where
  "scan_rows [] skipped_label columns = columns"
| "scan_rows (row # rows) skipped_label columns =
     (if is_blank_row row then scan_rows rows skipped_label columns
      else if \<not> skipped_label then scan_rows rows True columns
      else if is_comment_row row then scan_rows rows skipped_label columns
      else
        (let numeric = convert_cells (take 2 row) []
         in if numeric = [] then scan_rows rows skipped_label columns
            else
              scan_rows rows skipped_label
                (append_values (grow_columns columns (length numeric)) 0 numeric)))"

definition non_empty_lines :: "string \<Rightarrow> string list" where
  "non_empty_lines text = filter (\<lambda>line. str_strip line \<noteq> []) (str_splitlines text)"

text \<open>
  The two assignments to \<open>labels\<close>: the trimmed tokens of the label line, then the first
  two of the non-empty ones.
\<close>

definition label_tokens :: "char \<Rightarrow> string \<Rightarrow> string list" where
  "label_tokens delimiter labels_line =
     map (\<lambda>tok. str_strip_chars [DQUOTE, SQUOTE] (str_strip tok))
       (str_split delimiter labels_line)"

definition parse_labels :: "char \<Rightarrow> string \<Rightarrow> string list" where
  "parse_labels delimiter labels_line =
     take 2 (filter (\<lambda>lbl. lbl \<noteq> []) (label_tokens delimiter labels_line))"

definition file_delimiter :: "sniffer \<Rightarrow> string \<Rightarrow> char" where
  "file_delimiter sniff text = sniff_delimiter sniff (str_join [LF] (take 5 (non_empty_lines text)))"

text \<open>\<open>text\<close> is the decoded content of the file at \<open>path\<close>.\<close>

definition read_labels_and_data ::
  "sniffer \<Rightarrow> string \<Rightarrow> ingest_error + (string list \<times> pyfloat list list)" where
  "read_labels_and_data sniff text =
     (if non_empty_lines text = [] then Inl EmptyInput
      else
        (let labels_line = hd (non_empty_lines text);
             delimiter = file_delimiter sniff text;
             labels = parse_labels delimiter labels_line
         in case csv_reader delimiter text of
              Inl e \<Rightarrow> Inl (CsvError e)
            | Inr rows \<Rightarrow>
                (let columns = scan_rows rows False []
                 in if length labels < 2 then Inl MissingLabels
                    else if length columns < 2 then Inl InsufficientColumns
                    else Inr (labels, take 2 columns))))"

section \<open>The overlay aggregator (\<^verbatim>\<open>plot_overlay\<close>)\<close>

text \<open>
  A candidate file is its name and its decoded content. The figure is what the chart
  library is handed: the axis titles and the traces (name, x values, y values) in the
  order they were added. \<open>skipped\<close> is what the loop prints.
\<close>

type_synonym csv_file = "string \<times> string"

datatype skip_reason = ReadFailed ingest_error | UnpackFailed

datatype overlay_error = NoUsableInput

record overlay =
  x_title :: "string option"
  y_title :: "string option"
  traces :: "(string \<times> pyfloat list \<times> pyfloat list) list"
  added :: nat
  skipped :: "(string \<times> skip_reason) list"

definition overlay_init :: overlay where
  "overlay_init = \<lparr>x_title = None, y_title = None, traces = [], added = 0, skipped = []\<rparr>"

definition overlay_step :: "sniffer \<Rightarrow> overlay \<Rightarrow> csv_file \<Rightarrow> overlay" where
  "overlay_step sniff st fp =
     (case read_labels_and_data sniff (snd fp) of
        Inl e \<Rightarrow> st\<lparr>skipped := skipped st @ [(fst fp, ReadFailed e)]\<rparr>
      | Inr (labels, cols) \<Rightarrow>
          (case cols of
             [x, y] \<Rightarrow>
               (let st' =
                      (if x_title st = None \<and> 2 \<le> length labels
                       then st\<lparr>x_title := Some (labels ! 0), y_title := Some (labels ! 1)\<rparr>
                       else st)
                in st'\<lparr>traces := traces st' @ [(fst fp, x, y)], added := added st' + 1\<rparr>)
           | _ \<Rightarrow> st\<lparr>skipped := skipped st @ [(fst fp, UnpackFailed)]\<rparr>))"

fun overlay_loop :: "sniffer \<Rightarrow> overlay \<Rightarrow> csv_file list \<Rightarrow> overlay" where
  "overlay_loop sniff st [] = st"
| "overlay_loop sniff st (fp # fps) = overlay_loop sniff (overlay_step sniff st fp) fps"

definition plot_overlay :: "sniffer \<Rightarrow> csv_file list \<Rightarrow> overlay_error + overlay" where
  "plot_overlay sniff csv_files =
     (let st = overlay_loop sniff overlay_init csv_files
      in if added st = 0 then Inl NoUsableInput else Inr st)"

text \<open>What the loop has printed, whether or not the batch fails afterwards.\<close>

definition overlay_report :: "sniffer \<Rightarrow> csv_file list \<Rightarrow> (string \<times> skip_reason) list" where
  "overlay_report sniff csv_files = skipped (overlay_loop sniff overlay_init csv_files)"

section \<open>The waveform synthesizer (\<^verbatim>\<open>3_Phase_waveforms_3rd.py\<close>, \<^verbatim>\<open>3_Phase_waveforms.py\<close>)\<close>

text \<open>
  Floating-point numbers are modelled as reals: the theorems below are about the exact
  values, which the computed ones approximate. The parameter block of a script is a
  record; \<open>cycles\<close> and \<open>samples_per_cycle\<close> are integers, as in the scripts, so
  \<^verbatim>\<open>int(cycles * samples_per_cycle)\<close> is the product.
\<close>

record params =
  freq_hz :: real
  phase_leg_peak_v :: real
  cycles :: int
  samples_per_cycle :: int
  third_harmonic_ratio :: real

datatype py_error = ZeroDivisionError | ValueError

text \<open>
  \<^verbatim>\<open>np.linspace(start, stop, num, endpoint=False)\<close>: \<open>num\<close> samples \<open>start + i * step\<close>
  with \<open>step = (stop - start) / num\<close>; a negative \<open>num\<close> raises.
\<close>

definition linspace :: "real \<Rightarrow> real \<Rightarrow> int \<Rightarrow> py_error + real list" where
  "linspace start stop num =
     (if num < 0 then Inl ValueError
      else Inr (map (\<lambda>i. start + real i * ((stop - start) / of_int num)) [0..<nat num]))"

definition time_base :: "params \<Rightarrow> py_error + real list" where
  "time_base p =
     (if freq_hz p = 0 then Inl ZeroDivisionError
      else
        (let T = 1 / freq_hz p;
             N = cycles p * samples_per_cycle p
         in linspace 0 (of_int (cycles p) * T) N))"

datatype phase = Phase_A | Phase_B | Phase_C

definition phases :: "phase list" where
  "phases = [Phase_A, Phase_B, Phase_C]"

definition phase_angles :: "phase \<Rightarrow> real" where
  "phase_angles ph =
     (case ph of Phase_A \<Rightarrow> 0 | Phase_B \<Rightarrow> - 2 * pi / 3 | Phase_C \<Rightarrow> 2 * pi / 3)"

definition omega :: "params \<Rightarrow> real" where
  "omega p = 2 * pi * freq_hz p"

definition fundamental_waves :: "params \<Rightarrow> real list \<Rightarrow> phase \<Rightarrow> real list" where
  "fundamental_waves p t ph = map (\<lambda>x. sin (omega p * x + phase_angles ph)) t"

definition third_harmonic :: "params \<Rightarrow> real list \<Rightarrow> real list" where
  "third_harmonic p t = map (\<lambda>x. third_harmonic_ratio p * sin (3 * omega p * x)) t"

definition combined_waveforms :: "params \<Rightarrow> real list \<Rightarrow> phase \<Rightarrow> real list" where
  "combined_waveforms p t ph =
     map (\<lambda>(w, h). w + h) (zip (fundamental_waves p t ph) (third_harmonic p t))"

text \<open>\<^verbatim>\<open>np.max(np.abs(wave))\<close>; the maximum of an empty array raises.\<close>

definition np_max_abs :: "real list \<Rightarrow> py_error + real" where
  "np_max_abs wave =
     (case wave of
        [] \<Rightarrow> Inl ValueError
      | x # xs \<Rightarrow> Inr (foldl max \<bar>x\<bar> (map abs xs)))"

text \<open>\<^verbatim>\<open>max(np.max(np.abs(wave)) for wave in combined_waveforms.values())\<close>\<close>

fun max_of_phases :: "(phase \<Rightarrow> real list) \<Rightarrow> phase list \<Rightarrow> real option \<Rightarrow> py_error + real option" where
  "max_of_phases waves [] best = Inr best"
| "max_of_phases waves (ph # phs) best =
     (case np_max_abs (waves ph) of
        Inl e \<Rightarrow> Inl e
      | Inr m \<Rightarrow>
          max_of_phases waves phs (Some (case best of None \<Rightarrow> m | Some b \<Rightarrow> max b m)))"

definition max_modulation :: "params \<Rightarrow> real list \<Rightarrow> py_error + real" where
  "max_modulation p t =
     (case max_of_phases (combined_waveforms p t) phases None of
        Inl e \<Rightarrow> Inl e
      | Inr None \<Rightarrow> Inl ValueError
      | Inr (Some m) \<Rightarrow> Inr m)"

text \<open>
  The loop of \<^verbatim>\<open>3_Phase_waveforms.py\<close>: \<^verbatim>\<open>max_modulation = 0.0\<close>, then
  \<^verbatim>\<open>max_modulation = max(max_modulation, np.max(np.abs(combined)))\<close> for each phase.
\<close>

fun max_modulation_loop :: "(phase \<Rightarrow> real list) \<Rightarrow> phase list \<Rightarrow> real \<Rightarrow> py_error + real" where
  "max_modulation_loop waves [] acc = Inr acc"
| "max_modulation_loop waves (ph # phs) acc =
     (case np_max_abs (waves ph) of
        Inl e \<Rightarrow> Inl e
      | Inr m \<Rightarrow> max_modulation_loop waves phs (max acc m))"

text \<open>\<^verbatim>\<open>scaling = peak / max_modulation if max_modulation else 1.0\<close>\<close>

definition scaling_of :: "real \<Rightarrow> real \<Rightarrow> real" where
  "scaling_of peak m = (if m \<noteq> 0 then peak / m else 1)"

definition scaling :: "params \<Rightarrow> real list \<Rightarrow> py_error + real" where
  "scaling p t = map_sum id (scaling_of (phase_leg_peak_v p)) (max_modulation p t)"

definition scaling_loop :: "params \<Rightarrow> real list \<Rightarrow> py_error + real" where
  "scaling_loop p t =
     map_sum id (scaling_of (phase_leg_peak_v p))
       (max_modulation_loop (combined_waveforms p t) phases 0)"

text \<open>\<^verbatim>\<open>phase_waveforms[name] = scaling * raw_wave\<close>\<close>

definition phase_waveforms :: "params \<Rightarrow> real list \<Rightarrow> real \<Rightarrow> phase \<Rightarrow> real list" where
  "phase_waveforms p t s ph = map (\<lambda>x. s * x) (combined_waveforms p t ph)"

definition line_to_line_pairs :: "(phase \<times> phase) list" where
  "line_to_line_pairs = [(Phase_A, Phase_B), (Phase_B, Phase_C), (Phase_C, Phase_A)]"

text \<open>\<^verbatim>\<open>voltage = phase_waveforms[pos] - phase_waveforms[neg]\<close>\<close>

definition voltage :: "(phase \<Rightarrow> real list) \<Rightarrow> phase \<times> phase \<Rightarrow> real list" where
  "voltage waves pr = map (\<lambda>(a, b). a - b) (zip (waves (fst pr)) (waves (snd pr)))"

text \<open>The absolute values of all the samples of the three phases.\<close>

definition peak_set :: "(phase \<Rightarrow> real list) \<Rightarrow> real set" where
  "peak_set waves = abs ` (\<Union>ph. set (waves ph))"

section \<open>Auxiliary notions for the proofs\<close>






section \<open>The specification's reading of one cell\<close>

text \<open>
  The coercion of one cell as the specification words it: trim; an empty cell is
  not-a-number; otherwise parse, and on failure parse again with commas replaced by
  points; \<open>None\<close> when that fails too. The loop \<open>convert_cells\<close> of the code is compared
  with it below.
\<close>

definition coerce_cell :: "string \<Rightarrow> pyfloat option" where
  "coerce_cell cell =
     (let c = str_strip cell
      in if c = [] then Some NaN
         else
           (case py_float c of
              Some v \<Rightarrow> Some v
            | None \<Rightarrow> py_float (str_replace (CHR '','') (CHR ''.'') c)))"

section \<open>The specification's reading of a batch\<close>

text \<open>
  The files of a batch that parse (with their labels and columns) and the ones that do
  not (with the error), each in the order of the input, and the trace of a parsed file.
  The loop of \<open>plot_overlay\<close> is compared with them below.
\<close>

definition parsed_files ::
  "sniffer \<Rightarrow> csv_file list \<Rightarrow> (string \<times> string list \<times> pyfloat list list) list" where
  "parsed_files sniff csv_files =
     List.map_filter
       (\<lambda>fp. case read_labels_and_data sniff (snd fp) of
                Inl e \<Rightarrow> None
              | Inr (labels, cols) \<Rightarrow> Some (fst fp, labels, cols))
       csv_files"

definition failed_files :: "sniffer \<Rightarrow> csv_file list \<Rightarrow> (string \<times> skip_reason) list" where
  "failed_files sniff csv_files =
     List.map_filter
       (\<lambda>fp. case read_labels_and_data sniff (snd fp) of
                Inl e \<Rightarrow> Some (fst fp, ReadFailed e)
              | Inr r \<Rightarrow> None)
       csv_files"

definition trace_of :: "string \<times> string list \<times> pyfloat list list \<Rightarrow> string \<times> pyfloat list \<times> pyfloat list" where
  "trace_of f = (case f of (name, labels, cols) \<Rightarrow> (name, cols ! 0, cols ! 1))"

section \<open>Concrete inputs\<close>

text \<open>The parameter block of \<^verbatim>\<open>3_Phase_waveforms_3rd.py\<close> as it stands in the script.\<close>

definition script_params :: params where
  "script_params =
     \<lparr>freq_hz = 50, phase_leg_peak_v = 230, cycles = 2, samples_per_cycle = 400,
      third_harmonic_ratio = 1 / 6\<rparr>"

text \<open>The example file of the specification, and a file whose last row has one cell.\<close>

definition example_csv :: string where
  "example_csv = ''f,mag\<newline>10,0.5\<newline>100,0.1\<newline>''"

definition ragged_csv :: string where
  "ragged_csv = ''f,mag\<newline>1,2\<newline>3,4\<newline>5,6\<newline>7,8\<newline>9\<newline>''"

text \<open>A batch with one malformed file among three, and a batch of three malformed files.\<close>

definition example_batch :: "csv_file list" where
  "example_batch =
     [(''a.csv'', ''f,mag\<newline>10,0.5\<newline>100,0.1\<newline>''), (''b.csv'', ''x\<newline>''),
      (''c.csv'', ''u,v\<newline>1,2\<newline>'')]"

definition malformed_batch :: "csv_file list" where
  "malformed_batch = [(''b.csv'', ''x\<newline>''), (''d.csv'', []), (''e.csv'', ''p,q\<newline>'')]"

section \<open>Waveform synthesizer: properties\<close>

lemma combined_waveforms_map:
  "combined_waveforms p t ph =
     map (\<lambda>x. sin (omega p * x + phase_angles ph)
              + third_harmonic_ratio p * sin (3 * omega p * x)) t"
  by (simp add: combined_waveforms_def fundamental_waves_def third_harmonic_def zip_map_map
      zip_same_conv_map)

lemma voltage_map:
  "voltage (\<lambda>ph. map (f ph) t) pr = map (\<lambda>x. f (fst pr) x - f (snd pr) x) t"
  by (simp add: voltage_def zip_map_map zip_same_conv_map)

lemma foldl_max_Max: "foldl max a xs = Max (insert (a::real) (set xs))"
proof (induction xs arbitrary: a)
  case Nil
  show ?case by simp
next
  case (Cons x xs)
  have "Max (insert (max a x) (set xs)) = Max (insert a (insert x (set xs)))"
    by (cases "set xs = {}") (simp_all add: max.assoc)
  then show ?case using Cons by simp
qed

lemma np_max_abs_Max: "wave \<noteq> [] \<Longrightarrow> np_max_abs wave = Inr (Max (abs ` set wave))"
  by (cases wave) (simp_all add: np_max_abs_def foldl_max_Max)

lemma np_max_abs_Nil: "np_max_abs [] = Inl ValueError"
  by (simp add: np_max_abs_def)

lemma length_combined_waveforms: "length (combined_waveforms p t ph) = length t"
  by (simp add: combined_waveforms_map)

lemma UNIV_phase: "(UNIV :: phase set) = {Phase_A, Phase_B, Phase_C}"
  using phase.exhaust by auto

lemma peak_set_Un:
  "peak_set waves = abs ` set (waves Phase_A) \<union> abs ` set (waves Phase_B) \<union> abs ` set (waves Phase_C)"
  by (auto simp: peak_set_def UNIV_phase)

lemma Max_three:
  assumes "finite A" "finite B" "finite C" "A \<noteq> {}" "B \<noteq> {}" "C \<noteq> {}"
  shows "Max (A \<union> B \<union> C) = max (max (Max A) (Max B)) (Max (C::real set))"
  using assms by (simp add: Max_Un)

lemma max_of_phases_Max:
  assumes "\<And>ph. waves ph \<noteq> []"
  shows "max_of_phases waves phases None = Inr (Some (Max (peak_set waves)))"
  using assms by (simp add: phases_def np_max_abs_Max peak_set_Un Max_three)

lemma max_modulation_loop_Max:
  assumes "\<And>ph. waves ph \<noteq> []"
  shows "max_modulation_loop waves phases 0 = Inr (Max (peak_set waves))"
proof -
  have "0 \<le> Max (abs ` set (waves Phase_A))"
    using assms[of Phase_A] by (cases "waves Phase_A") (simp_all add: Max_ge_iff)
  then show ?thesis
    using assms by (simp add: phases_def np_max_abs_Max peak_set_Un Max_three)
qed

lemma max_modulation_Max:
  "t \<noteq> [] \<Longrightarrow> max_modulation p t = Inr (Max (peak_set (combined_waveforms p t)))"
  by (simp add: max_modulation_def max_of_phases_Max combined_waveforms_map)

lemma max_modulation_Nil: "max_modulation p [] = Inl ValueError"
  by (simp add: max_modulation_def phases_def combined_waveforms_map np_max_abs_Nil)

lemma max_modulation_loop_eq:
  "max_modulation_loop (combined_waveforms p t) phases 0 = max_modulation p t"
proof (cases "t = []")
  case True
  then show ?thesis
    by (simp add: max_modulation_Nil phases_def combined_waveforms_map np_max_abs_Nil)
next
  case False
  then show ?thesis
    by (simp add: max_modulation_Max max_modulation_loop_Max combined_waveforms_map)
qed

lemma finite_peak_set: "finite (peak_set waves)"
  by (simp add: peak_set_Un)

lemma peak_set_scaled:
  "peak_set (phase_waveforms p t s) = (\<lambda>x. \<bar>s\<bar> * x) ` peak_set (combined_waveforms p t)"
  by (simp add: peak_set_def phase_waveforms_def image_UN image_image abs_mult)

lemma Max_scaled:
  assumes "finite A" "A \<noteq> {}" "0 \<le> (c::real)"
  shows "Max ((\<lambda>x. c * x) ` A) = c * Max A"
proof -
  have "mono (\<lambda>x. c * x)" using assms(3) by (simp add: mono_def mult_left_mono)
  from mono_Max_commute[OF this assms(1,2)] show ?thesis by simp
qed

lemma normalized_peak_abs:
  assumes m: "max_modulation p t = Inr m" and nz: "m \<noteq> 0"
  shows "scaling p t = Inr (phase_leg_peak_v p / m)"
    and "scaling_loop p t = Inr (phase_leg_peak_v p / m)"
    and "Max (peak_set (phase_waveforms p t (phase_leg_peak_v p / m))) = \<bar>phase_leg_peak_v p\<bar>"
proof -
  let ?s = "phase_leg_peak_v p / m"
  let ?C = "peak_set (combined_waveforms p t)"
  have t: "t \<noteq> []" using m by (auto simp: max_modulation_Nil)
  have mC: "m = Max ?C" using m t by (simp add: max_modulation_Max)
  have neC: "?C \<noteq> {}" using t by (cases t) (auto simp: peak_set_def combined_waveforms_map)
  have "Max ?C \<in> ?C" using finite_peak_set neC by (rule Max_in)
  then have "0 \<le> m" unfolding mC[symmetric] by (auto simp: peak_set_def)
  with nz have mpos: "0 < m" by simp
  show "scaling p t = Inr ?s" using m nz by (simp add: scaling_def scaling_of_def)
  show "scaling_loop p t = Inr ?s"
    using m nz by (simp add: scaling_loop_def max_modulation_loop_eq scaling_of_def)
  have "Max (peak_set (phase_waveforms p t ?s)) = \<bar>?s\<bar> * Max ?C"
    unfolding peak_set_scaled by (rule Max_scaled[OF finite_peak_set neC]) simp
  also have "\<dots> = \<bar>phase_leg_peak_v p\<bar>" using mpos mC[symmetric] by simp
  finally show "Max (peak_set (phase_waveforms p t ?s)) = \<bar>phase_leg_peak_v p\<bar>" .
qed

text \<open>
  C1. Let \<open>m\<close> be the maximum absolute value over all samples of the three combined
  waveforms, as the synthesizer computes it, let it be nonzero, and let the target peak be
  a peak amplitude, that is, not negative. Then the scaling of both scripts is
  \<open>target_peak / m\<close>, the maximum absolute sample value over the three scaled phases is the
  target peak, and no sample of any phase exceeds it in absolute value.
\<close>

theorem normalized_peak:
  assumes m: "max_modulation p t = Inr m" and nz: "m \<noteq> 0"
    and peak: "0 \<le> phase_leg_peak_v p"
  shows "scaling p t = Inr (phase_leg_peak_v p / m)
       \<and> scaling_loop p t = Inr (phase_leg_peak_v p / m)
       \<and> Max (peak_set (phase_waveforms p t (phase_leg_peak_v p / m))) = phase_leg_peak_v p
       \<and> (\<forall>ph. \<forall>v \<in> set (phase_waveforms p t (phase_leg_peak_v p / m) ph).
             \<bar>v\<bar> \<le> phase_leg_peak_v p)"
proof -
  let ?s = "phase_leg_peak_v p / m"
  have mx: "Max (peak_set (phase_waveforms p t ?s)) = phase_leg_peak_v p"
    using normalized_peak_abs(3)[OF m nz] peak by simp
  have le: "\<bar>v\<bar> \<le> phase_leg_peak_v p" if "v \<in> set (phase_waveforms p t ?s ph)" for v ph
  proof -
    have "\<bar>v\<bar> \<in> peak_set (phase_waveforms p t ?s)" using that by (auto simp: peak_set_def)
    then have "\<bar>v\<bar> \<le> Max (peak_set (phase_waveforms p t ?s))"
      using finite_peak_set by (rule Max_ge[rotated])
    then show ?thesis using mx by simp
  qed
  show ?thesis using normalized_peak_abs(1,2)[OF m nz] mx le by blast
qed

theorem normalized_peak_witness:
  "\<exists>t m. time_base script_params = Inr t \<and> max_modulation script_params t = Inr m \<and> m \<noteq> 0
      \<and> scaling script_params t = Inr (230 / m)
      \<and> scaling_loop script_params t = Inr (230 / m)
      \<and> Max (peak_set (phase_waveforms script_params t (230 / m))) = 230"
proof -
  define t where "t = map (\<lambda>i. real i / 20000) [0..<800]"
  define m where "m = Max (peak_set (combined_waveforms script_params t))"
  have tb: "time_base script_params = Inr t"
    by (simp add: time_base_def linspace_def script_params_def t_def)
  have ne: "t \<noteq> []" by (simp add: t_def)
  have mm: "max_modulation script_params t = Inr m"
    using ne by (simp add: max_modulation_Max m_def)
  have "t ! 100 \<in> set t" by (rule nth_mem) (simp add: t_def)
  then have x: "1 / 200 \<in> set t" by (simp add: t_def)
  have s1: "sin (omega script_params * (1 / 200) + phase_angles Phase_A) = 1"
    by (simp add: omega_def script_params_def phase_angles_def)
  have "3 * omega script_params * (1 / 200) = 3 / 2 * pi"
    by (simp add: omega_def script_params_def)
  then have s3: "sin (3 * omega script_params * (1 / 200)) = - 1"
    using sin_3over2_pi by simp
  have "sin (omega script_params * (1 / 200) + phase_angles Phase_A)
          + third_harmonic_ratio script_params * sin (3 * omega script_params * (1 / 200))
        \<in> set (combined_waveforms script_params t Phase_A)"
    unfolding combined_waveforms_map set_map using x by (rule imageI)
  then have "5 / 6 \<in> set (combined_waveforms script_params t Phase_A)"
    unfolding s1 s3 by (simp add: script_params_def)
  then have "\<bar>5 / 6 :: real\<bar> \<in> peak_set (combined_waveforms script_params t)"
    unfolding peak_set_def by blast
  then have "\<bar>5 / 6 :: real\<bar> \<le> m"
    unfolding m_def using finite_peak_set by (rule Max_ge[rotated])
  then have nz: "m \<noteq> 0" by simp
  have pk: "0 \<le> phase_leg_peak_v script_params" by (simp add: script_params_def)
  from normalized_peak [OF mm nz pk] tb mm nz show ?thesis
    by (auto simp: script_params_def)
qed

text \<open>
  C2. For every pair of phases (so for A-B, B-C and C-A), every scaling factor and every
  time base, the line-to-line series of the injected and scaled phase waveforms is, sample
  by sample, the line-to-line series of the scaled fundamentals alone: the third-harmonic
  term is the same on the two phases and cancels in the difference.
\<close>

theorem line_to_line_injection_cancels:
  "voltage (phase_waveforms p t s) pr =
   voltage (\<lambda>ph. map (\<lambda>x. s * x) (fundamental_waves p t ph)) pr"
proof -
  have "voltage (phase_waveforms p t s) pr =
        voltage (\<lambda>ph. map (\<lambda>x. s * (sin (omega p * x + phase_angles ph)
                  + third_harmonic_ratio p * sin (3 * omega p * x))) t) pr"
  proof -
    have "phase_waveforms p t s =
          (\<lambda>ph. map (\<lambda>x. s * (sin (omega p * x + phase_angles ph)
                  + third_harmonic_ratio p * sin (3 * omega p * x))) t)"
      by (rule ext) (simp add: phase_waveforms_def combined_waveforms_map comp_def)
    then show ?thesis by simp
  qed
  also have "\<dots> = map (\<lambda>x. s * sin (omega p * x + phase_angles (fst pr))
                        - s * sin (omega p * x + phase_angles (snd pr))) t"
    by (simp add: voltage_map algebra_simps)
  also have "\<dots> = voltage (\<lambda>ph. map (\<lambda>x. s * sin (omega p * x + phase_angles ph)) t) pr"
    by (simp add: voltage_map)
  also have "\<dots> = voltage (\<lambda>ph. map (\<lambda>x. s * x) (fundamental_waves p t ph)) pr"
    by (simp add: fundamental_waves_def comp_def voltage_def)
  finally show ?thesis .
qed

text \<open>
  C7. For positive frequency, cycles and samples per cycle the time base is built without
  error and has exactly \<open>cycles * samples_per_cycle\<close> samples; the first is 0, every sample
  lies in the half-open interval from 0 to \<open>cycles / frequency\<close>, and consecutive samples
  differ by \<open>(1 / frequency) / samples_per_cycle\<close>.
\<close>

theorem time_base_uniform:
  assumes f: "0 < freq_hz p" and c: "0 < cycles p" and n: "0 < samples_per_cycle p"
  shows "\<exists>t. time_base p = Inr t
           \<and> length t = nat (cycles p * samples_per_cycle p)
           \<and> t ! 0 = 0
           \<and> (\<forall>i < length t. 0 \<le> t ! i \<and> t ! i < of_int (cycles p) / freq_hz p)
           \<and> (\<forall>i. Suc i < length t \<longrightarrow>
                 t ! Suc i - t ! i = (1 / freq_hz p) / of_int (samples_per_cycle p))"
proof -
  define N where "N = cycles p * samples_per_cycle p"
  define stop where "stop = of_int (cycles p) * (1 / freq_hz p)"
  define t where "t = map (\<lambda>i. 0 + real i * ((stop - 0) / of_int N)) [0..<nat N]"
  have Npos: "0 < N" using c n by (simp add: N_def)
  have stop_pos: "0 < stop" using f c by (simp add: stop_def)
  have tb: "time_base p = Inr t"
    using f Npos by (simp add: time_base_def linspace_def t_def N_def stop_def Let_def)
  have len: "length t = nat N" by (simp add: t_def)
  have nth: "t ! i = real i * (stop / of_int N)" if "i < nat N" for i
    using that by (simp add: t_def)
  have first: "t ! 0 = 0" using Npos nth[of 0] by simp
  have step: "stop / of_int N = (1 / freq_hz p) / of_int (samples_per_cycle p)"
    using c n by (simp add: stop_def N_def)
  have range: "0 \<le> t ! i \<and> t ! i < of_int (cycles p) / freq_hz p" if "i < length t" for i
  proof -
    have i: "i < nat N" using that len by simp
    have "real i < of_int N" using i Npos by linarith
    then have "real i * (stop / of_int N) < of_int N * (stop / of_int N)"
      using stop_pos Npos by (intro mult_strict_right_mono) simp_all
    also have "\<dots> = stop" using Npos by simp
    finally have "t ! i < stop" using nth[OF i] by simp
    moreover have "0 \<le> t ! i" using nth[OF i] stop_pos Npos by simp
    ultimately show ?thesis by (simp add: stop_def)
  qed
  have diff: "t ! Suc i - t ! i = (1 / freq_hz p) / of_int (samples_per_cycle p)"
    if "Suc i < length t" for i
  proof -
    have "t ! Suc i - t ! i = real (Suc i) * (stop / of_int N) - real i * (stop / of_int N)"
      using that len nth[of "Suc i"] nth[of i] by simp
    also have "\<dots> = stop / of_int N" by (simp add: add_divide_distrib distrib_right)
    finally show ?thesis using step by simp
  qed
  show ?thesis
    using tb len first range diff unfolding N_def by blast
qed

theorem time_base_uniform_witness:
  "\<exists>t. time_base script_params = Inr t \<and> length t = 800 \<and> t ! 0 = 0
       \<and> (\<forall>i < length t. 0 \<le> t ! i \<and> t ! i < 2 / 50)
       \<and> (\<forall>i. Suc i < length t \<longrightarrow> t ! Suc i - t ! i = (1 / 50) / 400)"
  using time_base_uniform [of script_params] by (simp add: script_params_def)




section \<open>CSV ingestor: properties\<close>

text \<open>The sniffer matters only through the delimiter it leads to.\<close>

lemma sniffer_only_delimiter:
  "read_labels_and_data sniff text =
   read_labels_and_data (\<lambda>_. Some (file_delimiter sniff text)) text"
  by (simp add: read_labels_and_data_def file_delimiter_def sniff_delimiter_def)

lemma example_sample:
  "str_join [LF] (take 5 (non_empty_lines example_csv)) = ''f,mag\<newline>10,0.5\<newline>100,0.1''"
  by code_simp

text \<open>
  C3. Ingesting the text \<open>f,mag / 10,0.5 / 100,0.1\<close> (three lines, each ended by a line
  feed) returns the labels \<open>f\<close> and \<open>mag\<close> and the two columns 10, 100 and 0.5, 0.1,
  whenever the library's sniffer reports the comma on the sample of that file or fails on
  it (the fallback then finds the comma); the sniffer of CPython reports the comma.
\<close>

theorem ingest_example:
  assumes "sniff ''f,mag\<newline>10,0.5\<newline>100,0.1'' = Some (CHR '','')
         \<or> sniff ''f,mag\<newline>10,0.5\<newline>100,0.1'' = None"
  shows "read_labels_and_data sniff example_csv =
           Inr ([''f'', ''mag''], [[Finite 10, Finite 100], [Finite (1 / 2), Finite (1 / 10)]])"
proof -
  have "sniff_delimiter sniff ''f,mag\<newline>10,0.5\<newline>100,0.1'' = CHR '',''"
    using assms by (auto simp: sniff_delimiter_def)
  then have d: "file_delimiter sniff example_csv = CHR '',''"
    by (simp add: file_delimiter_def example_sample)
  have "read_labels_and_data (\<lambda>_. Some (CHR '','')) example_csv =
           Inr ([''f'', ''mag''], [[Finite 10, Finite 100], [Finite (1 / 2), Finite (1 / 10)]])"
    by code_simp
  then show ?thesis using sniffer_only_delimiter[of sniff example_csv] d by simp
qed

theorem ingest_example_witness:
  "read_labels_and_data (\<lambda>_. Some (CHR '','')) example_csv =
     Inr ([''f'', ''mag''], [[Finite 10, Finite 100], [Finite (1 / 2), Finite (1 / 10)]])
   \<and> read_labels_and_data (\<lambda>_. None) example_csv =
     Inr ([''f'', ''mag''], [[Finite 10, Finite 100], [Finite (1 / 2), Finite (1 / 10)]])"
  using ingest_example [of "\<lambda>_. Some (CHR '','')"] ingest_example [of "\<lambda>_. None"] by simp

text \<open>
  C9 does not hold of the code. A data row with a single cell adds a value to the first
  column only: the file \<open>f,mag / 1,2 / 3,4 / 5,6 / 7,8 / 9\<close> is accepted and its x column
  has five values, its y column four. (The sample of this file is its first five lines,
  on which the sniffer reports the comma.)
\<close>

theorem ragged_columns:
  "read_labels_and_data (\<lambda>_. Some (CHR '','')) ragged_csv =
     Inr ([''f'', ''mag''],
          [[Finite 1, Finite 3, Finite 5, Finite 7, Finite 9],
           [Finite 2, Finite 4, Finite 6, Finite 8]])"
  by code_simp

lemma convert_cells_those:
  "convert_cells cells numeric =
     (case those (map coerce_cell cells) of None \<Rightarrow> [] | Some vs \<Rightarrow> numeric @ vs)"
proof (induction cells arbitrary: numeric)
  case Nil
  show ?case by simp
next
  case (Cons cell cells)
  show ?case
  proof (cases "coerce_cell cell")
    case None
    then show ?thesis
      by (auto simp: coerce_cell_def Let_def split: if_splits option.splits)
  next
    case (Some v)
    then have "convert_cells (cell # cells) numeric = convert_cells cells (numeric @ [v])"
      by (auto simp: coerce_cell_def Let_def split: if_splits option.splits)
    then show ?thesis
      using Some Cons.IH[of "numeric @ [v]"] by (simp split: option.splits)
  qed
qed

lemma those_length: "those xs = Some vs \<Longrightarrow> length vs = length xs"
  by (induction xs arbitrary: vs) (auto split: option.splits)

text \<open>
  C5. The inner loop returns the coerced cells when every cell coerces and nothing
  otherwise. For a data row (one that is reached after the header, is not blank and is
  not a comment) only the first two cells are read; when one of them fails both parses
  the columns stay as they are and the scan goes on with the next row; otherwise the
  coerced values are appended to the columns and the scan goes on.
\<close>

theorem row_coercion:
  "convert_cells cells [] =
     (case those (map coerce_cell cells) of None \<Rightarrow> [] | Some vs \<Rightarrow> vs)
   \<and> (\<not> is_blank_row row \<and> \<not> is_comment_row row \<longrightarrow>
        scan_rows (row # rows) True columns =
          (case those (map coerce_cell (take 2 row)) of
             None \<Rightarrow> scan_rows rows True columns
           | Some vs \<Rightarrow>
               scan_rows rows True (append_values (grow_columns columns (length vs)) 0 vs)))"
proof (intro conjI impI)
  show "convert_cells cells [] =
     (case those (map coerce_cell cells) of None \<Rightarrow> [] | Some vs \<Rightarrow> vs)"
    by (simp add: convert_cells_those split: option.splits)
next
  assume a: "\<not> is_blank_row row \<and> \<not> is_comment_row row"
  then have ne: "row \<noteq> []" by (auto simp: is_blank_row_def)
  show "scan_rows (row # rows) True columns =
          (case those (map coerce_cell (take 2 row)) of
             None \<Rightarrow> scan_rows rows True columns
           | Some vs \<Rightarrow>
               scan_rows rows True (append_values (grow_columns columns (length vs)) 0 vs))"
  proof (cases "those (map coerce_cell (take 2 row))")
    case None
    then show ?thesis using a by (simp add: convert_cells_those)
  next
    case (Some vs)
    from those_length[OF Some] ne have "vs \<noteq> []" by (cases row) auto
    then show ?thesis using a Some by (simp add: convert_cells_those Let_def)
  qed
qed

theorem row_coercion_witness:
  "convert_cells [''10'', ''0,5''] [] = [Finite 10, Finite (1 / 2)]
   \<and> convert_cells [''100'', ''abc''] [] = []
   \<and> scan_rows [[''10'', ''0,5'', ''7''], [''100'', ''abc''], [''1000'', '' '']] True [] =
       [[Finite 10, Finite 1000], [Finite (1 / 2), NaN]]"
proof -
  let ?r1 = "[''10'', ''0,5'', ''7'']" and ?r2 = "[''100'', ''abc'']" and ?r3 = "[''1000'', '' '']"
  let ?v1 = "[Finite 10, Finite (1 / 2)]" and ?v3 = "[Finite 1000, NaN]"
  let ?c1 = "[[Finite 10], [Finite (1 / 2)]]"
  have c1: "those (map coerce_cell (take 2 ?r1)) = Some ?v1" by code_simp
  have c2: "those (map coerce_cell (take 2 ?r2)) = None" by code_simp
  have c3: "those (map coerce_cell (take 2 ?r3)) = Some ?v3" by code_simp
  have c1': "those (map coerce_cell [''10'', ''0,5'']) = Some ?v1" by code_simp
  have c2': "those (map coerce_cell ?r2) = None" by code_simp
  have b1: "\<not> is_blank_row ?r1 \<and> \<not> is_comment_row ?r1" by code_simp
  have b2: "\<not> is_blank_row ?r2 \<and> \<not> is_comment_row ?r2" by code_simp
  have b3: "\<not> is_blank_row ?r3 \<and> \<not> is_comment_row ?r3" by code_simp
  have g1: "append_values (grow_columns [] (length ?v1)) 0 ?v1 = ?c1" by code_simp
  have g3: "append_values (grow_columns ?c1 (length ?v3)) 0 ?v3
            = [[Finite 10, Finite 1000], [Finite (1 / 2), NaN]]"
    by code_simp
  have r1: "convert_cells [''10'', ''0,5''] [] = ?v1"
    using row_coercion [of "[''10'', ''0,5'']"] by (simp only: c1' option.case)
  have r2: "convert_cells ?r2 [] = []"
    using row_coercion [of ?r2] by (simp only: c2' option.case)
  have "scan_rows [?r1, ?r2, ?r3] True [] = scan_rows [?r2, ?r3] True ?c1"
    using row_coercion [of "[]" ?r1 "[?r2, ?r3]" "[]"] b1 by (simp only: c1 option.case g1) blast
  also have "\<dots> = scan_rows [?r3] True ?c1"
    using row_coercion [of "[]" ?r2 "[?r3]" ?c1] b2 by (simp only: c2 option.case) blast
  also have "\<dots> = scan_rows [] True [[Finite 10, Finite 1000], [Finite (1 / 2), NaN]]"
    using row_coercion [of "[]" ?r3 "[]" ?c1] b3 by (simp only: c3 option.case g3) blast
  finally show ?thesis using r1 r2 by simp
qed

subsection \<open>The reader never fails on the lines of a file\<close>











subsection \<open>Files without a substantive line\<close>








subsection \<open>The label line and the first row of the reader\<close>
























section \<open>Overlay aggregator: properties\<close>

lemma length_two: "length zs = 2 \<Longrightarrow> \<exists>a b. zs = [a, b]"
  by (cases zs; cases "tl zs") auto

lemma read_result_shape:
  assumes "read_labels_and_data sniff text = Inr (labels, cols)"
  shows "\<exists>a b x y. labels = [a, b] \<and> cols = [x, y]"
proof -
  from assms have "length labels = 2 \<and> length cols = 2"
    by (auto simp: read_labels_and_data_def Let_def parse_labels_def
        split: if_splits sum.splits)
  then show ?thesis using length_two[of labels] length_two[of cols] by blast
qed

lemma files_Cons_failed:
  assumes "read_labels_and_data sniff (snd fp) = Inl e"
  shows "parsed_files sniff (fp # fs) = parsed_files sniff fs"
    and "failed_files sniff (fp # fs) = (fst fp, ReadFailed e) # failed_files sniff fs"
  using assms by (simp_all add: parsed_files_def failed_files_def)

lemma files_Cons_parsed:
  assumes "read_labels_and_data sniff (snd fp) = Inr (labels, cols)"
  shows "parsed_files sniff (fp # fs) = (fst fp, labels, cols) # parsed_files sniff fs"
    and "failed_files sniff (fp # fs) = failed_files sniff fs"
  using assms by (simp_all add: parsed_files_def failed_files_def)

lemma overlay_step_failed:
  "read_labels_and_data sniff (snd fp) = Inl e \<Longrightarrow>
     overlay_step sniff st fp = st\<lparr>skipped := skipped st @ [(fst fp, ReadFailed e)]\<rparr>"
  by (simp add: overlay_step_def)

lemma overlay_step_parsed:
  assumes "read_labels_and_data sniff (snd fp) = Inr (labels, cols)"
  shows "overlay_step sniff st fp =
           st\<lparr>x_title := (if x_title st = None then Some (labels ! 0) else x_title st),
              y_title := (if x_title st = None then Some (labels ! 1) else y_title st),
              traces := traces st @ [(fst fp, cols ! 0, cols ! 1)],
              added := added st + 1\<rparr>"
proof -
  from read_result_shape[OF assms] obtain a b x y where
    s: "labels = [a, b]" "cols = [x, y]" by blast
  show ?thesis using assms unfolding s by (simp add: overlay_step_def)
qed

lemma overlay_loop_fields:
  "skipped (overlay_loop sniff st fs) = skipped st @ failed_files sniff fs
   \<and> traces (overlay_loop sniff st fs) = traces st @ map trace_of (parsed_files sniff fs)
   \<and> added (overlay_loop sniff st fs) = added st + length (parsed_files sniff fs)
   \<and> x_title (overlay_loop sniff st fs) =
       (if x_title st = None
        then (case parsed_files sniff fs of [] \<Rightarrow> None | (name, labels, cols) # _ \<Rightarrow> Some (labels ! 0))
        else x_title st)
   \<and> y_title (overlay_loop sniff st fs) =
       (if x_title st = None
        then (case parsed_files sniff fs of [] \<Rightarrow> y_title st | (name, labels, cols) # _ \<Rightarrow> Some (labels ! 1))
        else y_title st)"
proof (induction fs arbitrary: st)
  case Nil
  show ?case by (simp add: parsed_files_def failed_files_def)
next
  case (Cons fp fs)
  let ?st1 = "overlay_step sniff st fp"
  note IH = Cons[of ?st1]
  show ?case
  proof (cases "read_labels_and_data sniff (snd fp)")
    case (Inl e)
    have st1: "x_title ?st1 = x_title st" "y_title ?st1 = y_title st" "traces ?st1 = traces st"
      "added ?st1 = added st" "skipped ?st1 = skipped st @ [(fst fp, ReadFailed e)]"
      using Inl by (simp_all add: overlay_step_failed)
    show ?thesis
      using IH unfolding st1 files_Cons_failed[OF Inl] overlay_loop.simps by simp
  next
    case (Inr r)
    obtain labels cols where r: "read_labels_and_data sniff (snd fp) = Inr (labels, cols)"
      using Inr by (cases r) simp
    have st1: "x_title ?st1 = (if x_title st = None then Some (labels ! 0) else x_title st)"
      "y_title ?st1 = (if x_title st = None then Some (labels ! 1) else y_title st)"
      "traces ?st1 = traces st @ [(fst fp, cols ! 0, cols ! 1)]"
      "added ?st1 = added st + 1" "skipped ?st1 = skipped st"
      by (simp_all add: overlay_step_parsed[OF r])
    show ?thesis
    proof (cases "x_title st")
      case None
      have a: "x_title ?st1 = Some (labels ! 0)" "y_title ?st1 = Some (labels ! 1)"
        using st1 None by simp_all
      show ?thesis
        using IH
        by (simp add: a st1(3-5) files_Cons_parsed[OF r] None trace_of_def)
    next
      case (Some title)
      have a: "x_title ?st1 = Some title" "y_title ?st1 = y_title st"
        using st1 Some by simp_all
      show ?thesis
        using IH
        by (simp add: a st1(3-5) files_Cons_parsed[OF r] Some trace_of_def)
    qed
  qed
qed

lemma parsed_files_Nil_iff:
  "parsed_files sniff fs = [] \<longleftrightarrow> list_all (\<lambda>fp. isl (read_labels_and_data sniff (snd fp))) fs"
  by (induction fs) (auto simp: parsed_files_def split: sum.splits)

text \<open>
  C6. The aggregator tries every file of the batch. What it reports is the list of the
  files whose parse fails, each with its error, in input order; the traces it adds are
  those of the files that parse, in input order; the axis titles are the two labels of the
  first file that parses; and it fails, with \<open>NoUsableInput\<close>, exactly when no file
  parses.
\<close>

theorem plot_overlay_spec:
  "overlay_report sniff csv_files = failed_files sniff csv_files
   \<and> plot_overlay sniff csv_files =
       (case parsed_files sniff csv_files of
          [] \<Rightarrow> Inl NoUsableInput
        | (name, labels, cols) # others \<Rightarrow>
            Inr \<lparr>x_title = Some (labels ! 0), y_title = Some (labels ! 1),
                 traces = map trace_of (parsed_files sniff csv_files),
                 added = length (parsed_files sniff csv_files),
                 skipped = failed_files sniff csv_files\<rparr>)
   \<and> (plot_overlay sniff csv_files = Inl NoUsableInput
        \<longleftrightarrow> list_all (\<lambda>fp. isl (read_labels_and_data sniff (snd fp))) csv_files)"
proof -
  let ?st = "overlay_loop sniff overlay_init csv_files"
  note f = overlay_loop_fields[of sniff overlay_init csv_files]
  have rep: "overlay_report sniff csv_files = failed_files sniff csv_files"
    using f by (simp add: overlay_report_def overlay_init_def)
  have main: "plot_overlay sniff csv_files =
       (case parsed_files sniff csv_files of
          [] \<Rightarrow> Inl NoUsableInput
        | (name, labels, cols) # others \<Rightarrow>
            Inr \<lparr>x_title = Some (labels ! 0), y_title = Some (labels ! 1),
                 traces = map trace_of (parsed_files sniff csv_files),
                 added = length (parsed_files sniff csv_files),
                 skipped = failed_files sniff csv_files\<rparr>)"
  proof (cases "parsed_files sniff csv_files")
    case Nil
    then show ?thesis using f by (simp add: plot_overlay_def overlay_init_def)
  next
    case (Cons p ps)
    obtain name labels cols where p: "p = (name, labels, cols)" by (cases p)
    have "?st = \<lparr>x_title = Some (labels ! 0), y_title = Some (labels ! 1),
                 traces = map trace_of (parsed_files sniff csv_files),
                 added = length (parsed_files sniff csv_files),
                 skipped = failed_files sniff csv_files\<rparr>"
      using f Cons p by (cases ?st) (simp add: overlay_init_def)
    moreover have "added ?st \<noteq> 0" using f Cons by simp
    ultimately show ?thesis using Cons p by (simp add: plot_overlay_def Let_def)
  qed
  have "plot_overlay sniff csv_files = Inl NoUsableInput \<longleftrightarrow> parsed_files sniff csv_files = []"
    unfolding main by (auto split: list.splits)
  then show ?thesis using rep main parsed_files_Nil_iff[of sniff csv_files] by blast
qed

theorem plot_overlay_spec_witness:
  "plot_overlay (\<lambda>_. None) example_batch =
     Inr \<lparr>x_title = Some ''f'', y_title = Some ''mag'',
          traces = [(''a.csv'', [Finite 10, Finite 100], [Finite (1 / 2), Finite (1 / 10)]),
                    (''c.csv'', [Finite 1], [Finite 2])],
          added = 2, skipped = [(''b.csv'', ReadFailed MissingLabels)]\<rparr>
   \<and> plot_overlay (\<lambda>_. None) malformed_batch = Inl NoUsableInput
   \<and> overlay_report (\<lambda>_. None) malformed_batch =
       [(''b.csv'', ReadFailed MissingLabels), (''d.csv'', ReadFailed EmptyInput),
        (''e.csv'', ReadFailed InsufficientColumns)]"
proof -
  let ?S = "\<lambda>_::string. None :: char option"
  let ?P = "[(''a.csv'', [''f'', ''mag''], [[Finite 10, Finite 100], [Finite (1 / 2), Finite (1 / 10)]]),
             (''c.csv'', [''u'', ''v''], [[Finite 1], [Finite 2]])]"
  have p: "parsed_files ?S example_batch = ?P" by code_simp
  have f: "failed_files ?S example_batch = [(''b.csv'', ReadFailed MissingLabels)]" by code_simp
  have t: "map trace_of ?P =
             [(''a.csv'', [Finite 10, Finite 100], [Finite (1 / 2), Finite (1 / 10)]),
              (''c.csv'', [Finite 1], [Finite 2])]"
    by code_simp
  have l: "length ?P = 2" by simp
  have n: "[''f'', ''mag''] ! 0 = ''f''" "[''f'', ''mag''] ! 1 = ''mag''" by simp_all
  have p': "parsed_files ?S malformed_batch = []" by code_simp
  have f': "failed_files ?S malformed_batch =
      [(''b.csv'', ReadFailed MissingLabels), (''d.csv'', ReadFailed EmptyInput),
       (''e.csv'', ReadFailed InsufficientColumns)]"
    by code_simp
  have 1: "plot_overlay ?S example_batch =
     Inr \<lparr>x_title = Some ''f'', y_title = Some ''mag'',
          traces = [(''a.csv'', [Finite 10, Finite 100], [Finite (1 / 2), Finite (1 / 10)]),
                    (''c.csv'', [Finite 1], [Finite 2])],
          added = 2, skipped = [(''b.csv'', ReadFailed MissingLabels)]\<rparr>"
    using plot_overlay_spec [of ?S example_batch]
    unfolding p f t l by (simp only: list.case prod.case n)
  have 2: "plot_overlay ?S malformed_batch = Inl NoUsableInput
     \<and> overlay_report ?S malformed_batch =
       [(''b.csv'', ReadFailed MissingLabels), (''d.csv'', ReadFailed EmptyInput),
        (''e.csv'', ReadFailed InsufficientColumns)]"
    using plot_overlay_spec [of ?S malformed_batch]
    unfolding p' f' by (simp only: list.case)
  from 1 2 show ?thesis by blast
qed

end
